theory Spec2Isabelle
  imports Complex_Main
begin

section \<open>Cards and the deck (flip7\_engine.py)\<close>

text \<open>
  A \<open>Card\<close> of the source is a frozen dataclass with a \<open>kind\<close> string and optional
  \<open>value\<close> and \<open>name\<close>. The four kinds the engine dispatches on are the constructors
  below: \<open>Card('number', v)\<close>, \<open>Card('modifier', m)\<close>, \<open>Card('mult')\<close> and
  \<open>Card('action', name=n)\<close>. The name of an action card stays a string, since
  \<open>_process_draw\<close> compares it with \<open>'Freeze'\<close>, \<open>'FlipThree'\<close> and \<open>'SecondChance'\<close>
  and falls through to \<open>'unknown_card'\<close> for any other name.
\<close>

datatype card = Number int | Modifier int | Mult | Action string

text \<open>The exceptions the engine and the agent can raise.\<close>

datatype error = ValueError | IndexError | ZeroDivisionError

text \<open>
  The result of a call: a value, a raised exception, or \<open>OutOfFuel\<close> when the bound
  on the iterations of the model was reached before the code returned.
\<close>

datatype 'a res = Ok 'a | Raise error | OutOfFuel

text \<open>
  \<open>Flip7Deck.__init__\<close> appends the cards in this order. The random source of the deck
  is kept apart (see \<open>GameState_init\<close>): the constructor only seeds it.
\<close>

definition Flip7Deck_cards :: "card list" where
  "Flip7Deck_cards =
     [Number 0, Number 1]
     @ concat (map (\<lambda>n. replicate n (Number (int n))) [2..<13])
     @ map (\<lambda>m. Modifier (int m)) [2..<11]
     @ replicate 2 (Action ''Freeze'')
     @ replicate 2 (Action ''FlipThree'')
     @ [Action ''SecondChance'']
     @ [Mult]"

section \<open>The random source\<close>

text \<open>
  Python's \<open>random.Random\<close> is not part of the repository. A random source is modelled
  by the infinite sequence of raw values it will produce and the position reached in it;
  \<open>randbelow n\<close> reduces the next raw value into \<open>range(n)\<close>, as \<open>Random._randbelow\<close>
  returns a value below \<open>n\<close>. The theorems quantify over every sequence.
\<close>

type_synonym rng = "(nat \<Rightarrow> nat) \<times> nat"

definition randbelow :: "rng \<Rightarrow> nat \<Rightarrow> nat \<times> rng" where
  "randbelow r n = (fst r (snd r) mod n, (fst r, Suc (snd r)))"

text \<open>
  \<open>Random.shuffle(x)\<close> of CPython:
  \<^verbatim>\<open>for i in reversed(range(1, len(x))): j = randbelow(i + 1); x[i], x[j] = x[j], x[i]\<close>.
  \<open>shuffle_from i\<close> runs the iterations \<open>i, i - 1, ..., 1\<close>.
\<close>

fun shuffle_from :: "nat \<Rightarrow> rng \<Rightarrow> 'a list \<Rightarrow> 'a list \<times> rng" where
  "shuffle_from 0 r xs = (xs, r)"
| "shuffle_from (Suc i) r xs =
     (let (j, r') = randbelow r (Suc i + 1)
      in shuffle_from i r' (xs[Suc i := xs ! j, j := xs ! Suc i]))"

definition shuffle :: "rng \<Rightarrow> 'a list \<Rightarrow> 'a list \<times> rng" where
  "shuffle r xs = shuffle_from (length xs - 1) r xs"

section \<open>The game state (flip7\_engine.py, class GameState)\<close>

record game_state =
  num_players :: nat
  player_totals :: "int list"
  current_player :: nat
  deck :: "card list"
  current_numbers :: "int list"
  flat_modifiers :: int
  x2 :: bool
  second_chance_count :: nat
  round_over :: bool
  winner :: "nat option"

text \<open>
  The dictionary \<open>apply_action\<close> and \<open>_process_draw\<close> return. A key the source leaves
  out is \<open>None\<close>; \<open>banked\<close> is \<open>True\<close> after a stay and the banked score after a flip7.
\<close>

datatype banked_val = BankedFlag bool | BankedScore int

record outcome =
  result :: string
  ocard :: "card option"
  banked :: "banked_val option"
  round_end :: "bool option"
  draws :: "card list option"

definition plain_outcome :: "string \<Rightarrow> card \<Rightarrow> outcome" where
  "plain_outcome tag c =
     \<lparr>result = tag, ocard = Some c, banked = None, round_end = None, draws = None\<rparr>"

text \<open>\<open>res.get('round_end')\<close>: true when the key is present and true.\<close>

definition ends_round :: "outcome \<Rightarrow> bool" where
  "ends_round out = (round_end out = Some True)"

definition legal_actions :: "game_state \<Rightarrow> string list" where
  "legal_actions s =
     (if round_over s \<or> winner s \<noteq> None then [] else [''hit'', ''stay''])"

text \<open>\<open>len(set(xs))\<close> is the length of \<open>remdups xs\<close>.\<close>

definition sum_current_score :: "game_state \<Rightarrow> int" where
  "sum_current_score s =
     (let s0 = sum_list (current_numbers s);
          s1 = (if x2 s then s0 * 2 else s0);
          s2 = s1 + flat_modifiers s
      in if 7 \<le> length (remdups (current_numbers s)) then s2 + 15 else s2)"

text \<open>\<open>self.player_totals[self.current_player] += score\<close>, an IndexError out of range.\<close>

definition add_to_total :: "game_state \<Rightarrow> int \<Rightarrow> game_state res" where
  "add_to_total s score =
     (if current_player s < length (player_totals s)
      then Ok (s\<lparr>player_totals :=
                  (player_totals s)[current_player s :=
                     player_totals s ! current_player s + score]\<rparr>)
      else Raise IndexError)"

text \<open>The reset of the current line, shared by a bank, a bust and a flip7.\<close>

definition reset_line :: "game_state \<Rightarrow> game_state" where
  "reset_line s =
     s\<lparr>current_numbers := [], flat_modifiers := 0, x2 := False,
       second_chance_count := 0, round_over := True\<rparr>"

definition check_winner :: "game_state \<Rightarrow> game_state" where
  "check_winner s =
     (if 200 \<le> player_totals s ! current_player s
      then s\<lparr>winner := Some (current_player s)\<rparr> else s)"

definition bank_current :: "game_state \<Rightarrow> game_state res" where
  "bank_current s =
     (let score = (if current_numbers s \<noteq> [] then sum_current_score s else 0)
      in case add_to_total s score of
           Ok s1 \<Rightarrow> Ok (check_winner (reset_line s1))
         | Raise e \<Rightarrow> Raise e
         | OutOfFuel \<Rightarrow> OutOfFuel)"

text \<open>
  The loop of the FlipThree branch, \<open>for _ in range(3)\<close>, with the recursive call of
  \<open>_process_draw\<close> as the parameter \<open>p\<close>. \<open>k\<close> counts the iterations left, \<open>ds\<close> is the
  list \<open>draws\<close>.
\<close>

fun flip_three_loop ::
  "(game_state \<Rightarrow> card \<Rightarrow> (outcome \<times> game_state) res) \<Rightarrow> nat \<Rightarrow> game_state \<Rightarrow> card
     \<Rightarrow> card list \<Rightarrow> (outcome \<times> game_state) res" where
  "flip_three_loop p 0 s c ds =
     Ok ((plain_outcome ''flipthree_done'' c)\<lparr>draws := Some ds\<rparr>, s)"
| "flip_three_loop p (Suc k) s c ds =
     (case deck s of
        [] \<Rightarrow> Ok ((plain_outcome ''flipthree_done'' c)\<lparr>draws := Some ds\<rparr>, s)
      | d # rest \<Rightarrow>
          (case p (s\<lparr>deck := rest\<rparr>) d of
             Ok (r, s') \<Rightarrow>
               if ends_round r
               then Ok ((plain_outcome ''flipthree_resolved'' c)
                          \<lparr>draws := Some (ds @ [d]), round_end := Some True\<rparr>, s')
               else flip_three_loop p k s' c (ds @ [d])
           | Raise e \<Rightarrow> Raise e
           | OutOfFuel \<Rightarrow> OutOfFuel))"

text \<open>The body of \<open>_process_draw\<close>; \<open>p\<close> is \<open>self._process_draw\<close> in the FlipThree branch.\<close>

definition process_card ::
  "(game_state \<Rightarrow> card \<Rightarrow> (outcome \<times> game_state) res) \<Rightarrow> game_state \<Rightarrow> card
     \<Rightarrow> (outcome \<times> game_state) res" where
  "process_card p s c =
     (case c of
        Number v \<Rightarrow>
          if v \<in> set (current_numbers s) then
            if 0 < second_chance_count s
            then Ok (plain_outcome ''duplicate_discarded'' c,
                     s\<lparr>second_chance_count := second_chance_count s - 1\<rparr>)
            else Ok ((plain_outcome ''bust'' c)\<lparr>round_end := Some True\<rparr>, reset_line s)
          else
            let s1 = s\<lparr>current_numbers := current_numbers s @ [v]\<rparr> in
            if 7 \<le> length (remdups (current_numbers s1)) then
              (let score = sum_current_score s1 in
               case add_to_total s1 score of
                 Ok s2 \<Rightarrow>
                   Ok ((plain_outcome ''flip7'' c)
                         \<lparr>banked := Some (BankedScore score), round_end := Some True\<rparr>,
                       check_winner (reset_line s2))
               | Raise e \<Rightarrow> Raise e
               | OutOfFuel \<Rightarrow> OutOfFuel)
            else Ok (plain_outcome ''number_added'' c, s1)
      | Modifier m \<Rightarrow>
          Ok (plain_outcome ''modifier_added'' c, s\<lparr>flat_modifiers := flat_modifiers s + m\<rparr>)
      | Mult \<Rightarrow> Ok (plain_outcome ''x2_added'' c, s\<lparr>x2 := True\<rparr>)
      | Action name \<Rightarrow>
          if name = ''Freeze'' then
            (case bank_current s of
               Ok s1 \<Rightarrow>
                 Ok ((plain_outcome ''freeze'' c)\<lparr>round_end := Some True\<rparr>,
                     s1\<lparr>round_over := True\<rparr>)
             | Raise e \<Rightarrow> Raise e
             | OutOfFuel \<Rightarrow> OutOfFuel)
          else if name = ''FlipThree'' then flip_three_loop p 3 s c []
          else if name = ''SecondChance'' then
            Ok (plain_outcome ''secondchance_added'' c,
                s\<lparr>second_chance_count := second_chance_count s + 1\<rparr>)
          else Ok (plain_outcome ''unknown_card'' c, s))"

text \<open>
  \<open>_process_draw\<close> calls itself inside the FlipThree loop, on a deck that the forced
  draw has shortened. \<open>process_draw n\<close> allows \<open>n\<close> nested calls; every nested call
  follows a draw, so the number of cards left in the deck is enough
  (\<open>process_draw_enough\<close> below), and \<open>draw_card\<close> is the method itself.
\<close>

primrec process_draw ::
  "nat \<Rightarrow> game_state \<Rightarrow> card \<Rightarrow> (outcome \<times> game_state) res" where
  "process_draw 0 = process_card (\<lambda>s c. OutOfFuel)"
| "process_draw (Suc n) = process_card (process_draw n)"

definition draw_card :: "game_state \<Rightarrow> card \<Rightarrow> (outcome \<times> game_state) res" where
  "draw_card s c = process_draw (length (deck s)) s c"

text \<open>
  \<open>self.current_player = (self.current_player + 1) % self.num_players\<close> and
  \<open>self.round_over = False\<close>; the modulo raises ZeroDivisionError for no players.
\<close>

definition advance_player :: "game_state \<Rightarrow> game_state res" where
  "advance_player s =
     (if num_players s = 0 then Raise ZeroDivisionError
      else Ok (s\<lparr>current_player := (current_player s + 1) mod num_players s,
                 round_over := False\<rparr>))"

definition apply_action :: "game_state \<Rightarrow> string \<Rightarrow> (outcome \<times> game_state) res" where
  "apply_action s action =
     (if action \<notin> set (legal_actions s) then Raise ValueError
      else
        let s0 = s\<lparr>round_over := False\<rparr> in
        if action = ''stay'' then
          (case bank_current s0 of
             Ok s1 \<Rightarrow>
               (case advance_player s1 of
                  Ok s2 \<Rightarrow>
                    Ok (\<lparr>result = ''stayed'', ocard = None,
                         banked = Some (BankedFlag True), round_end = None,
                         draws = None\<rparr>, s2)
                | Raise e \<Rightarrow> Raise e
                | OutOfFuel \<Rightarrow> OutOfFuel)
           | Raise e \<Rightarrow> Raise e
           | OutOfFuel \<Rightarrow> OutOfFuel)
        else
          (case deck s0 of
             [] \<Rightarrow> Raise IndexError
           | c # rest \<Rightarrow>
               (case draw_card (s0\<lparr>deck := rest\<rparr>) c of
                  Ok (out, s1) \<Rightarrow>
                    if ends_round out
                    then (case advance_player s1 of
                            Ok s2 \<Rightarrow> Ok (out, s2)
                          | Raise e \<Rightarrow> Raise e
                          | OutOfFuel \<Rightarrow> OutOfFuel)
                    else Ok (out, s1)
                | Raise e \<Rightarrow> Raise e
                | OutOfFuel \<Rightarrow> OutOfFuel)))"

definition game_over :: "game_state \<Rightarrow> bool" where
  "game_over s = (winner s \<noteq> None)"

text \<open>
  \<open>GameState.__init__\<close>. \<open>Random(seed)\<close> and \<open>rng.seed(seed)\<close> put the generator in
  the state that the seed determines: the parameter \<open>mt\<close> gives, for a seed, the
  sequence of raw values (CPython's Mersenne Twister, which is not part of the
  repository). With no seed the generator starts from the entropy of the operating
  system, the parameter \<open>ent\<close>, which differs from run to run.
\<close>

record flip7_deck =
  cards :: "card list"
  deck_rng :: rng

definition Random :: "(int \<Rightarrow> nat \<Rightarrow> nat) \<Rightarrow> (nat \<Rightarrow> nat) \<Rightarrow> int option \<Rightarrow> rng" where
  "Random mt ent seed = (case seed of None \<Rightarrow> (ent, 0) | Some sd \<Rightarrow> (mt sd, 0))"

definition Flip7Deck_init ::
  "(int \<Rightarrow> nat \<Rightarrow> nat) \<Rightarrow> (nat \<Rightarrow> nat) \<Rightarrow> int option \<Rightarrow> flip7_deck" where
  "Flip7Deck_init mt ent seed = \<lparr>cards = Flip7Deck_cards, deck_rng = Random mt ent seed\<rparr>"

definition deck_shuffle :: "(int \<Rightarrow> nat \<Rightarrow> nat) \<Rightarrow> flip7_deck \<Rightarrow> int option \<Rightarrow> flip7_deck" where
  "deck_shuffle mt d seed =
     (let r = (case seed of None \<Rightarrow> deck_rng d | Some sd \<Rightarrow> (mt sd, 0));
          (xs, r') = shuffle r (cards d)
      in \<lparr>cards = xs, deck_rng = r'\<rparr>)"

text \<open>
  After the construction nothing calls \<open>Flip7Deck.shuffle\<close> again (the agent shuffles
  \<open>deck.cards\<close> with the global \<open>random\<close>), so the state keeps the cards of its deck only.
\<close>

definition GameState_init ::
  "(int \<Rightarrow> nat \<Rightarrow> nat) \<Rightarrow> (nat \<Rightarrow> nat) \<Rightarrow> nat \<Rightarrow> flip7_deck option \<Rightarrow> int option
     \<Rightarrow> game_state" where
  "GameState_init mt ent n dk seed =
     (let d = (case dk of None \<Rightarrow> Flip7Deck_init mt ent seed | Some d0 \<Rightarrow> d0);
          d' = deck_shuffle mt d seed
      in \<lparr>num_players = n, player_totals = replicate n 0, current_player = 0,
          deck = cards d', current_numbers = [], flat_modifiers = 0, x2 = False,
          second_chance_count = 0, round_over = False, winner = None\<rparr>)"

text \<open>
  The states a game can be in: a constructed state, then any action applied through
  \<open>apply_action\<close>, and \<open>set_deck\<close>, which replaces the cards of the deck.
\<close>

inductive reachable :: "game_state \<Rightarrow> bool" where
  reach_init: "reachable (GameState_init mt ent n dk seed)"
| reach_step: "reachable s \<Longrightarrow> apply_action s a = Ok (out, s') \<Longrightarrow> reachable s'"
| reach_set_deck: "reachable s \<Longrightarrow> reachable (s\<lparr>deck := cs\<rparr>)"

section \<open>The search tree (mcts\_agent.py)\<close>

text \<open>
  A Python float is modelled by a real number or one of the two infinities; rounding
  and NaN are not modelled. \<open>fl_less\<close> is \<open><\<close> on floats.
\<close>

datatype pyfloat = NegInf | Fin real | PosInf

fun fl_less :: "pyfloat \<Rightarrow> pyfloat \<Rightarrow> bool" where
  "fl_less NegInf NegInf = False"
| "fl_less NegInf (Fin y) = True"
| "fl_less NegInf PosInf = True"
| "fl_less (Fin x) NegInf = False"
| "fl_less (Fin x) (Fin y) = (x < y)"
| "fl_less (Fin x) PosInf = True"
| "fl_less PosInf y = False"

text \<open>
  A \<open>Node\<close>: the address of its state, its action, its children in the order the
  dictionary received them, its visits and its value. The parent reference of the
  source is the position in the tree: a function that needs the parent receives it.
\<close>

datatype node =
  Node (nstate: nat) (naction: "string option") (nchildren: "(string \<times> node) list")
       (nvisits: nat) (nvalue: real)

text \<open>
  \<open>Node.ucb1\<close>, for the child \<open>ch\<close> of \<open>par\<close>. \<open>math.log\<close> raises ValueError at 0;
  from 1 on the logarithm is not negative and the square root is defined.
\<close>

definition ucb1 :: "real \<Rightarrow> node \<Rightarrow> node \<Rightarrow> pyfloat res" where
  "ucb1 c_param par ch =
     (if nvisits ch = 0 then Ok PosInf
      else if nvisits par = 0 then Raise ValueError
      else Ok (Fin (nvalue ch / real (nvisits ch)
                    + c_param * sqrt (ln (real (nvisits par)) / real (nvisits ch)))))"

text \<open>\<open>[child.ucb1(c_param) for child in choices]\<close>: the first exception ends it.\<close>

fun ucb1_all :: "real \<Rightarrow> node \<Rightarrow> node list \<Rightarrow> pyfloat list res" where
  "ucb1_all c_param par [] = Ok []"
| "ucb1_all c_param par (ch # chs) =
     (case ucb1 c_param par ch of
        Ok x \<Rightarrow>
          (case ucb1_all c_param par chs of
             Ok xs \<Rightarrow> Ok (x # xs)
           | Raise e \<Rightarrow> Raise e
           | OutOfFuel \<Rightarrow> OutOfFuel)
      | Raise e \<Rightarrow> Raise e
      | OutOfFuel \<Rightarrow> OutOfFuel)"

text \<open>
  \<open>max(scores)\<close> keeps the first of the largest elements: a later element replaces the
  candidate only when it is greater. \<open>scores.index(v)\<close> is the first position of \<open>v\<close>.
\<close>

fun py_max_from :: "pyfloat \<Rightarrow> pyfloat list \<Rightarrow> pyfloat" where
  "py_max_from m [] = m"
| "py_max_from m (x # xs) = py_max_from (if fl_less m x then x else m) xs"

definition py_max :: "pyfloat list \<Rightarrow> pyfloat res" where
  "py_max xs = (case xs of [] \<Rightarrow> Raise ValueError | x # ys \<Rightarrow> Ok (py_max_from x ys))"

fun py_index :: "'a list \<Rightarrow> 'a \<Rightarrow> nat res" where
  "py_index [] v = Raise ValueError"
| "py_index (x # xs) v =
     (if x = v then Ok 0
      else case py_index xs v of
             Ok i \<Rightarrow> Ok (Suc i)
           | Raise e \<Rightarrow> Raise e
           | OutOfFuel \<Rightarrow> OutOfFuel)"

text \<open>
  \<open>MCTSAgent.best_child\<close>, as the position of the chosen child among
  \<open>list(node.children.values())\<close>.
\<close>

definition best_child :: "real \<Rightarrow> node \<Rightarrow> nat res" where
  "best_child c_param nd =
     (case ucb1_all c_param nd (map snd (nchildren nd)) of
        Ok scores \<Rightarrow>
          (case py_max scores of
             Ok m \<Rightarrow> py_index scores m
           | Raise e \<Rightarrow> Raise e
           | OutOfFuel \<Rightarrow> OutOfFuel)
      | Raise e \<Rightarrow> Raise e
      | OutOfFuel \<Rightarrow> OutOfFuel)"

text \<open>
  The loop of \<open>default_policy\<close> on its local clone \<open>st\<close>, with the flag \<open>flip7_hit\<close>.
  \<open>random.choice(actions)\<close> is \<open>actions[randbelow(len(actions))]\<close>. The loop can run for
  ever (a stay draws no card), so \<open>n\<close> bounds its iterations.
\<close>

fun rollout_loop :: "nat \<Rightarrow> rng \<Rightarrow> game_state \<Rightarrow> bool \<Rightarrow> (game_state \<times> bool \<times> rng) res" where
  "rollout_loop 0 r st f = OutOfFuel"
| "rollout_loop (Suc n) r st f =
     (if game_over st \<or> length (deck st) = 0 then Ok (st, f, r)
      else
        let actions = legal_actions st in
        if actions = [] then Ok (st, f, r)
        else
          let (i, r') = randbelow r (length actions);
              act = actions ! i
          in case apply_action st act of
               Ok (out, st') \<Rightarrow>
                 let f' = (f \<or> result out = ''flip7'') in
                 if ends_round out then Ok (st', f', r')
                 else rollout_loop n r' st' f'
             | Raise e \<Rightarrow> Raise e
             | OutOfFuel \<Rightarrow> OutOfFuel)"

text \<open>
  The last loop of \<open>run\<close>: the action of the child with the highest mean value, where
  a child without visits scores minus infinity, and \<open>None\<close> when no score is greater
  than the initial minus infinity.
\<close>

fun choose_action ::
  "(string \<times> node) list \<Rightarrow> string option \<Rightarrow> pyfloat \<Rightarrow> string option" where
  "choose_action [] best_act best_score = best_act"
| "choose_action ((a, child) # rest) best_act best_score =
     (let score = (if nvisits child = 0 then NegInf
                   else Fin (nvalue child / real (nvisits child)))
      in if fl_less best_score score then choose_action rest (Some a) score
         else choose_action rest best_act best_score)"

section \<open>Auxiliary predicates of the statements\<close>

text \<open>
  A function \<open>p\<close> in the place of \<open>_process_draw\<close> is safe on decks shorter than \<open>L\<close>
  when it returns there and never lengthens the deck.
\<close>

definition deck_safe ::
  "(game_state \<Rightarrow> card \<Rightarrow> (outcome \<times> game_state) res) \<Rightarrow> nat \<Rightarrow> bool" where
  "deck_safe p L =
     (\<forall>s d. length (deck s) < L \<longrightarrow>
        p s d \<noteq> OutOfFuel \<and>
        (\<forall>out s'. p s d = Ok (out, s') \<longrightarrow> length (deck s') \<le> length (deck s)))"

definition is_number :: "card \<Rightarrow> bool" where
  "is_number c = (case c of Number v \<Rightarrow> True | _ \<Rightarrow> False)"

definition is_modifier :: "card \<Rightarrow> bool" where
  "is_modifier c = (case c of Modifier v \<Rightarrow> True | _ \<Rightarrow> False)"

text \<open>
  A state of a two-player game in the middle of player 0's round, for the examples:
  the collected numbers, the flat modifier, the multiplier flag, the second-chance
  tokens and the deck are given, both totals are 0.
\<close>

definition mid_round :: "int list \<Rightarrow> int \<Rightarrow> bool \<Rightarrow> nat \<Rightarrow> card list \<Rightarrow> game_state" where
  "mid_round ns m mult sc cs =
     \<lparr>num_players = 2, player_totals = [0, 0], current_player = 0, deck = cs,
      current_numbers = ns, flat_modifiers = m, x2 = mult, second_chance_count = sc,
      round_over = False, winner = None\<rparr>"

section \<open>The recursion of \<open>_process_draw\<close>\<close>

lemma deck_safe_mono: "deck_safe p L \<Longrightarrow> L' \<le> L \<Longrightarrow> deck_safe p L'"
  by (auto simp: deck_safe_def)

lemma flip_three_loop_safe:
  "deck_safe p (length (deck s)) \<Longrightarrow>
   flip_three_loop p k s c ds \<noteq> OutOfFuel \<and>
   (\<forall>out s'. flip_three_loop p k s c ds = Ok (out, s') \<longrightarrow> length (deck s') \<le> length (deck s))"
proof (induction k arbitrary: s ds)
  case 0
  then show ?case by simp
next
  case (Suc k)
  show ?case
  proof (cases "deck s")
    case Nil
    then show ?thesis by simp
  next
    case (Cons d rest)
    let ?s1 = "s\<lparr>deck := rest\<rparr>"
    have len: "length (deck ?s1) < length (deck s)" using Cons by simp
    from Suc.prems len have p1: "p ?s1 d \<noteq> OutOfFuel"
      and p2: "\<And>out s'. p ?s1 d = Ok (out, s') \<Longrightarrow> length (deck s') \<le> length (deck ?s1)"
      unfolding deck_safe_def by blast+
    show ?thesis
    proof (cases "p ?s1 d")
      case (Ok x)
      obtain r s' where x: "x = (r, s')" by (cases x)
      from p2 Ok x have le: "length (deck s') \<le> length rest" by simp
      have "deck_safe p (length (deck s'))"
        using Suc.prems le Cons by (auto intro: deck_safe_mono)
      from Suc.IH[OF this, of "ds @ [d]"] le
      show ?thesis using Cons Ok x by auto
    next
      case (Raise e)
      then show ?thesis using Cons by simp
    next
      case OutOfFuel
      with p1 show ?thesis by simp
    qed
  qed
qed

lemma flip_three_loop_cong:
  "deck_safe p (length (deck s)) \<Longrightarrow>
   (\<And>s' d. length (deck s') < length (deck s) \<Longrightarrow> p s' d = q s' d) \<Longrightarrow>
   flip_three_loop p k s c ds = flip_three_loop q k s c ds"
proof (induction k arbitrary: s ds)
  case 0
  then show ?case by simp
next
  case (Suc k)
  show ?case
  proof (cases "deck s")
    case Nil
    then show ?thesis by simp
  next
    case (Cons d rest)
    let ?s1 = "s\<lparr>deck := rest\<rparr>"
    have len: "length (deck ?s1) < length (deck s)" using Cons by simp
    have eq: "p ?s1 d = q ?s1 d" using Suc.prems(2)[OF len] .
    from Suc.prems(1) len
    have p2: "\<And>out s'. p ?s1 d = Ok (out, s') \<Longrightarrow> length (deck s') \<le> length (deck ?s1)"
      unfolding deck_safe_def by blast
    show ?thesis
    proof (cases "p ?s1 d")
      case (Ok x)
      obtain r s' where x: "x = (r, s')" by (cases x)
      from p2 Ok x have le: "length (deck s') \<le> length rest" by simp
      have safe: "deck_safe p (length (deck s'))"
        using Suc.prems(1) le Cons by (auto intro: deck_safe_mono)
      have "flip_three_loop p k s' c (ds @ [d]) = flip_three_loop q k s' c (ds @ [d])"
        by (rule Suc.IH[OF safe]) (use Suc.prems(2) le Cons in auto)
      then show ?thesis using Cons Ok x eq by simp
    next
      case (Raise e)
      then show ?thesis using Cons eq by simp
    next
      case OutOfFuel
      then show ?thesis using Cons eq by simp
    qed
  qed
qed

lemma deck_safeI:
  "(\<And>s d. length (deck s) < L \<Longrightarrow> p s d \<noteq> OutOfFuel) \<Longrightarrow>
   (\<And>s d out s'. length (deck s) < L \<Longrightarrow> p s d = Ok (out, s') \<Longrightarrow>
      length (deck s') \<le> length (deck s)) \<Longrightarrow>
   deck_safe p L"
  unfolding deck_safe_def by blast

lemma deck_reset_line: "deck (reset_line s) = deck s"
  by (simp add: reset_line_def)

lemma deck_check_winner: "deck (check_winner s) = deck s"
  by (simp add: check_winner_def)

lemma add_to_total_deck: "add_to_total s x = Ok s' \<Longrightarrow> deck s' = deck s"
  unfolding add_to_total_def by (cases "current_player s < length (player_totals s)") auto

lemma add_to_total_not_fuel: "add_to_total s x \<noteq> OutOfFuel"
  by (simp add: add_to_total_def)

lemma bank_current_deck: "bank_current s = Ok s' \<Longrightarrow> deck s' = deck s"
proof -
  assume a: "bank_current s = Ok s'"
  let ?sc = "if current_numbers s \<noteq> [] then sum_current_score s else 0"
  show ?thesis
  proof (cases "add_to_total s ?sc")
    case (Ok s1)
    with a have "s' = check_winner (reset_line s1)" by (simp add: bank_current_def)
    then show ?thesis
      using add_to_total_deck[OF Ok] by (simp add: deck_check_winner deck_reset_line)
  next
    case (Raise e)
    with a show ?thesis by (simp add: bank_current_def)
  next
    case OutOfFuel
    with a show ?thesis by (simp add: bank_current_def)
  qed
qed

lemma bank_current_not_fuel: "bank_current s \<noteq> OutOfFuel"
  using add_to_total_not_fuel[of s "if current_numbers s \<noteq> [] then sum_current_score s else 0"]
  by (cases "add_to_total s (if current_numbers s \<noteq> [] then sum_current_score s else 0)")
     (simp_all add: bank_current_def)

lemma process_card_number_safe:
  "process_card p s (Number v) \<noteq> OutOfFuel \<and>
   (\<forall>out s'. process_card p s (Number v) = Ok (out, s') \<longrightarrow> deck s' = deck s)"
proof (cases "v \<in> set (current_numbers s)")
  case True
  then show ?thesis by (simp add: process_card_def deck_reset_line)
next
  case False
  let ?s1 = "s\<lparr>current_numbers := current_numbers s @ [v]\<rparr>"
  show ?thesis
  proof (cases "7 \<le> length (remdups (current_numbers ?s1))")
    case seven: True
    show ?thesis
    proof (cases "add_to_total ?s1 (sum_current_score ?s1)")
      case (Ok s2)
      from add_to_total_deck[OF Ok] have "deck s2 = deck s" by simp
      with False seven Ok show ?thesis
        by (simp add: process_card_def Let_def deck_check_winner deck_reset_line)
    next
      case (Raise e)
      with False seven show ?thesis by (simp add: process_card_def Let_def)
    next
      case OutOfFuel
      with add_to_total_not_fuel show ?thesis by blast
    qed
  next
    case noseven: False
    with False show ?thesis by (simp add: process_card_def Let_def)
  qed
qed

lemma process_card_freeze_safe:
  "process_card p s (Action ''Freeze'') \<noteq> OutOfFuel \<and>
   (\<forall>out s'. process_card p s (Action ''Freeze'') = Ok (out, s') \<longrightarrow> deck s' = deck s)"
proof (cases "bank_current s")
  case (Ok s1)
  from bank_current_deck[OF Ok] show ?thesis using Ok by (simp add: process_card_def)
next
  case (Raise e)
  then show ?thesis by (simp add: process_card_def)
next
  case OutOfFuel
  with bank_current_not_fuel show ?thesis by blast
qed

lemma process_card_safe:
  "deck_safe p (length (deck s)) \<Longrightarrow>
   process_card p s c \<noteq> OutOfFuel \<and>
   (\<forall>out s'. process_card p s c = Ok (out, s') \<longrightarrow> length (deck s') \<le> length (deck s))"
proof (cases c)
  case (Number v)
  with process_card_number_safe[of p s v] show ?thesis by auto
next
  case (Modifier m)
  then show ?thesis by (simp add: process_card_def)
next
  case Mult
  then show ?thesis by (simp add: process_card_def)
next
  case (Action name)
  assume safe: "deck_safe p (length (deck s))"
  consider "name = ''Freeze''" | "name \<noteq> ''Freeze''" "name = ''FlipThree''"
    | "name \<noteq> ''Freeze''" "name \<noteq> ''FlipThree''" by blast
  then show ?thesis
  proof cases
    case 1
    with process_card_freeze_safe[of p s] Action show ?thesis by auto
  next
    case 2
    have "process_card p s c = flip_three_loop p 3 s c []"
      using 2 Action by (simp add: process_card_def)
    with flip_three_loop_safe[OF safe, of 3 c "[]"] show ?thesis by simp
  next
    case 3
    with Action show ?thesis by (simp add: process_card_def)
  qed
qed

lemma process_card_cong:
  "deck_safe p (length (deck s)) \<Longrightarrow>
   (\<And>s' d. length (deck s') < length (deck s) \<Longrightarrow> p s' d = q s' d) \<Longrightarrow>
   process_card p s c = process_card q s c"
proof -
  assume safe: "deck_safe p (length (deck s))"
    and eq: "\<And>s' d. length (deck s') < length (deck s) \<Longrightarrow> p s' d = q s' d"
  have "flip_three_loop p 3 s c' [] = flip_three_loop q 3 s c' []" for c'
    by (rule flip_three_loop_cong[OF safe eq])
  then show ?thesis
    by (cases c) (simp_all add: process_card_def)
qed

lemma process_draw_step:
  "length (deck s) \<le> n \<Longrightarrow>
   process_draw (Suc n) s c = process_draw n s c \<and> process_draw n s c \<noteq> OutOfFuel \<and>
   (\<forall>out s'. process_draw n s c = Ok (out, s') \<longrightarrow> length (deck s') \<le> length (deck s))"
proof (induction n arbitrary: s c)
  case 0
  have safe: "deck_safe p (length (deck s))" for p using 0 by (simp add: deck_safe_def)
  have eq: "process_card (process_draw 0) s c = process_card (\<lambda>s c. OutOfFuel) s c"
    by (rule process_card_cong[OF safe]) (use 0 in simp)
  have p0: "process_draw 0 s c = process_card (\<lambda>s c. OutOfFuel) s c" by simp
  have p1: "process_draw (Suc 0) s c = process_card (process_draw 0) s c" by simp
  from process_card_safe[OF safe, of "\<lambda>s c. OutOfFuel" c] eq p0 p1
  show ?case by presburger
next
  case (Suc n)
  have IH1: "process_draw (Suc n) s' d = process_draw n s' d"
    if "length (deck s') \<le> n" for s' d using Suc.IH[OF that] by blast
  have IH2: "process_draw n s' d \<noteq> OutOfFuel"
    if "length (deck s') \<le> n" for s' d using Suc.IH[OF that] by blast
  have IH3: "length (deck s'') \<le> length (deck s')"
    if "length (deck s') \<le> n" "process_draw n s' d = Ok (out, s'')" for s' d out s''
    using Suc.IH[OF that(1)] that(2) by blast
  have small: "length (deck s') \<le> n" if "length (deck s') < length (deck s)" for s' :: game_state
    using that Suc.prems by linarith
  have safe_n: "deck_safe (process_draw n) (length (deck s))"
  proof (rule deck_safeI)
    fix s' :: game_state and d assume "length (deck s') < length (deck s)"
    then show "process_draw n s' d \<noteq> OutOfFuel" using IH2 small by blast
  next
    fix s' :: game_state and d out s''
    assume "length (deck s') < length (deck s)" "process_draw n s' d = Ok (out, s'')"
    then show "length (deck s'') \<le> length (deck s')" using IH3 small by blast
  qed
  have safe_Sn: "deck_safe (process_draw (Suc n)) (length (deck s))"
  proof (rule deck_safeI)
    fix s' :: game_state and d assume lt: "length (deck s') < length (deck s)"
    have "process_draw (Suc n) s' d = process_draw n s' d" using IH1 small lt by blast
    then show "process_draw (Suc n) s' d \<noteq> OutOfFuel" using IH2 small lt by metis
  next
    fix s' :: game_state and d out s''
    assume lt: "length (deck s') < length (deck s)"
      and ok: "process_draw (Suc n) s' d = Ok (out, s'')"
    have "process_draw (Suc n) s' d = process_draw n s' d" using IH1 small lt by blast
    with ok have "process_draw n s' d = Ok (out, s'')" by metis
    then show "length (deck s'') \<le> length (deck s')" using IH3 small lt by blast
  qed
  have eq: "process_card (process_draw (Suc n)) s c = process_card (process_draw n) s c"
  proof (rule process_card_cong[OF safe_Sn])
    fix s' :: game_state and d assume "length (deck s') < length (deck s)"
    then show "process_draw (Suc n) s' d = process_draw n s' d" using IH1 small by blast
  qed
  have p1: "process_draw (Suc n) s c = process_card (process_draw n) s c"
    by (rule fun_cong[OF fun_cong[OF process_draw.simps(2)]])
  have p2: "process_draw (Suc (Suc n)) s c = process_card (process_draw (Suc n)) s c"
    by (rule fun_cong[OF fun_cong[OF process_draw.simps(2)]])
  from process_card_safe[OF safe_n, of c] eq p1 p2
  show ?case by presburger
qed

lemma process_draw_enough:
  "length (deck s) \<le> n \<Longrightarrow> process_draw n s c = draw_card s c"
proof (induction n)
  case 0
  then show ?case by (simp add: draw_card_def)
next
  case (Suc n)
  show ?case
  proof (cases "length (deck s) \<le> n")
    case True
    with Suc.IH process_draw_step[OF True, of c] show ?thesis by simp
  next
    case False
    with Suc.prems have "length (deck s) = Suc n" by simp
    then show ?thesis by (simp add: draw_card_def)
  qed
qed

lemma draw_card_not_fuel: "draw_card s c \<noteq> OutOfFuel"
  using process_draw_step[of s "length (deck s)" c] by (simp add: draw_card_def)

lemma draw_card_deck_le: "draw_card s c = Ok (out, s') \<Longrightarrow> length (deck s') \<le> length (deck s)"
  using process_draw_step[of s "length (deck s)" c] by (simp add: draw_card_def)

lemma deck_safe_draw_card: "deck_safe draw_card L"
  unfolding deck_safe_def using draw_card_not_fuel draw_card_deck_le by blast

lemma draw_card_unfold: "draw_card s c = process_card draw_card s c"
proof -
  have "draw_card s c = process_draw (Suc (length (deck s))) s c"
    using process_draw_step[of s "length (deck s)" c] by (simp add: draw_card_def)
  also have "\<dots> = process_card (process_draw (length (deck s))) s c" by simp
  also have "\<dots> = process_card draw_card s c"
  proof (rule process_card_cong)
    show "deck_safe (process_draw (length (deck s))) (length (deck s))"
    proof (rule deck_safeI)
      fix s' :: game_state and d assume "length (deck s') < length (deck s)"
      then have "process_draw (length (deck s)) s' d = draw_card s' d"
        by (simp add: process_draw_enough)
      then show "process_draw (length (deck s)) s' d \<noteq> OutOfFuel"
        using draw_card_not_fuel by metis
    next
      fix s' :: game_state and d out s''
      assume "length (deck s') < length (deck s)"
        and ok: "process_draw (length (deck s)) s' d = Ok (out, s'')"
      then have "process_draw (length (deck s)) s' d = draw_card s' d"
        by (simp add: process_draw_enough)
      with ok have "draw_card s' d = Ok (out, s'')" by metis
      then show "length (deck s'') \<le> length (deck s')" by (rule draw_card_deck_le)
    qed
  next
    fix s' :: game_state and d assume "length (deck s') < length (deck s)"
    then show "process_draw (length (deck s)) s' d = draw_card s' d"
      by (simp add: process_draw_enough)
  qed
  finally show ?thesis .
qed

section \<open>The deck and its construction\<close>

lemma upt_2_13: "[2..<13] = [2,3,4,5,6,7,8,9,10,11,12::nat]"
  by (simp add: upt_rec)

lemma upt_2_11: "[2..<11] = [2,3,4,5,6,7,8,9,10::nat]"
  by (simp add: upt_rec)

lemma Flip7Deck_cards_length: "length Flip7Deck_cards = 94"
  by (simp add: Flip7Deck_cards_def upt_2_13 upt_2_11)

lemma count_list_replicate: "count_list (replicate k x) y = (if x = y then k else 0)"
  by (induction k) auto

lemma Flip7Deck_cards_numbers:
  "count_list Flip7Deck_cards (Number n) =
     (if n = 0 \<or> n = 1 then 1 else if 2 \<le> n \<and> n \<le> 12 then nat n else 0)"
  by (simp add: Flip7Deck_cards_def upt_2_13 upt_2_11 count_list_replicate) arith

lemma Flip7Deck_cards_modifiers:
  "count_list Flip7Deck_cards (Modifier m) = (if 2 \<le> m \<and> m \<le> 10 then 1 else 0)"
  by (simp add: Flip7Deck_cards_def upt_2_13 upt_2_11 count_list_replicate)

lemma Flip7Deck_cards_actions:
  "count_list Flip7Deck_cards (Action name) =
     (if name = ''Freeze'' then 2 else if name = ''FlipThree'' then 2
      else if name = ''SecondChance'' then 1 else 0)"
  by (simp add: Flip7Deck_cards_def upt_2_13 upt_2_11 count_list_replicate)

lemma Flip7Deck_cards_mult: "count_list Flip7Deck_cards Mult = 1"
  by (simp add: Flip7Deck_cards_def upt_2_13 upt_2_11 count_list_replicate)

lemma Flip7Deck_cards_kinds:
  "length (filter is_number Flip7Deck_cards) = 79 \<and>
   length (filter is_modifier Flip7Deck_cards) = 9"
  by (simp add: Flip7Deck_cards_def upt_2_13 upt_2_11 is_number_def is_modifier_def)

text \<open>
  Claim C5, as amended. For every seed, a freshly constructed deck holds exactly 94 cards:
  79 number cards (one 0, one 1, and \<open>n\<close> copies of \<open>n\<close> for \<open>n\<close> from 2 to 12), the 9
  modifier cards +2 to +10 once each, 2 Freeze, 2 FlipThree, 1 SecondChance and 1
  multiplier, and no other card.
\<close>

theorem C5_fresh_deck:
  "length (cards (Flip7Deck_init mt ent seed)) = 94 \<and>
   length (filter is_number (cards (Flip7Deck_init mt ent seed))) = 79 \<and>
   length (filter is_modifier (cards (Flip7Deck_init mt ent seed))) = 9 \<and>
   (\<forall>n. count_list (cards (Flip7Deck_init mt ent seed)) (Number n) =
          (if n = 0 \<or> n = 1 then 1 else if 2 \<le> n \<and> n \<le> 12 then nat n else 0)) \<and>
   (\<forall>m. count_list (cards (Flip7Deck_init mt ent seed)) (Modifier m) =
          (if 2 \<le> m \<and> m \<le> 10 then 1 else 0)) \<and>
   (\<forall>name. count_list (cards (Flip7Deck_init mt ent seed)) (Action name) =
          (if name = ''Freeze'' then 2 else if name = ''FlipThree'' then 2
           else if name = ''SecondChance'' then 1 else 0)) \<and>
   count_list (cards (Flip7Deck_init mt ent seed)) Mult = 1"
  by (simp add: Flip7Deck_init_def Flip7Deck_cards_length Flip7Deck_cards_numbers
      Flip7Deck_cards_modifiers Flip7Deck_cards_actions Flip7Deck_cards_mult
      Flip7Deck_cards_kinds)

text \<open>
  Claim C10. Two constructions of a GameState with the same number of players and the
  same seed give the same state, and so the same order of the deck, whatever the entropy
  of the operating system is in each run (for instance with 2 players and seed 42): the
  deck is the shuffle of the constructor's cards by the generator the seed determines.
  A deck passed by the caller is reseeded, so the state of its own generator
  does not matter either.
\<close>

theorem C10_seeded_construction:
  "GameState_init mt ent1 n None (Some sd) = GameState_init mt ent2 n None (Some sd) \<and>
   deck (GameState_init mt ent1 2 None (Some 42)) = deck (GameState_init mt ent2 2 None (Some 42)) \<and>
   deck (GameState_init mt ent1 n None (Some sd)) = fst (shuffle (mt sd, 0) Flip7Deck_cards) \<and>
   GameState_init mt ent1 n (Some \<lparr>cards = cs, deck_rng = r1\<rparr>) (Some sd) =
     GameState_init mt ent2 n (Some \<lparr>cards = cs, deck_rng = r2\<rparr>) (Some sd)"
  by (simp add: GameState_init_def Flip7Deck_init_def deck_shuffle_def Random_def Let_def
      split: prod.splits)

text \<open>
  Claim C5 as it is written asks for 78 number cards. The constructor makes 79
  (1 + 1 + 2 + ... + 12), which with the 9 modifiers and the 6 other cards are the 94 that
  its assertion checks.
\<close>

theorem C5_counterexample:
  "length (filter is_number (cards (Flip7Deck_init (\<lambda>sd i. 0) (\<lambda>i. 0) (Some 42)))) = 79 \<and>
   length (filter is_number (cards (Flip7Deck_init (\<lambda>sd i. 0) (\<lambda>i. 0) (Some 42)))) \<noteq> 78"
  by (simp add: Flip7Deck_init_def Flip7Deck_cards_def upt_2_13 upt_2_11 is_number_def)

section \<open>Banking, staying and the round-ending draws\<close>

lemma add_to_total_Ok:
  "current_player s < length (player_totals s) \<Longrightarrow>
   add_to_total s k = Ok (s\<lparr>player_totals :=
      (player_totals s)[current_player s := player_totals s ! current_player s + k]\<rparr>)"
  by (simp add: add_to_total_def)

lemma add_to_total_Raise:
  "\<not> current_player s < length (player_totals s) \<Longrightarrow> add_to_total s k = Raise IndexError"
  by (simp add: add_to_total_def)

lemma player_totals_reset_line: "player_totals (reset_line s) = player_totals s"
  by (simp add: reset_line_def)

lemma player_totals_check_winner: "player_totals (check_winner s) = player_totals s"
  by (simp add: check_winner_def)

lemma bank_current_Ok:
  "current_player s < length (player_totals s) \<Longrightarrow>
   bank_current s = Ok (check_winner (reset_line (s\<lparr>player_totals :=
      (player_totals s)[current_player s := player_totals s ! current_player s
         + (if current_numbers s \<noteq> [] then sum_current_score s else 0)]\<rparr>)))"
  by (simp add: bank_current_def add_to_total_Ok)

lemma bank_current_totals:
  "current_player s < length (player_totals s) \<Longrightarrow>
   \<exists>s'. bank_current s = Ok s' \<and>
        player_totals s' = (player_totals s)[current_player s :=
           player_totals s ! current_player s
             + (if current_numbers s = [] then 0 else sum_current_score s)]"
  by (simp add: bank_current_Ok player_totals_check_winner player_totals_reset_line)


lemma legal_actions_mem:
  "a \<in> set (legal_actions s) \<longleftrightarrow> \<not> round_over s \<and> winner s = None \<and> (a = ''hit'' \<or> a = ''stay'')"
  by (auto simp: legal_actions_def)

lemma advance_player_Ok:
  "num_players s \<noteq> 0 \<Longrightarrow>
   advance_player s = Ok (s\<lparr>current_player := (current_player s + 1) mod num_players s,
                            round_over := False\<rparr>)"
  by (simp add: advance_player_def)

lemma num_players_reset_line: "num_players (reset_line s) = num_players s"
  by (simp add: reset_line_def)

lemma num_players_check_winner: "num_players (check_winner s) = num_players s"
  by (simp add: check_winner_def)

lemma bank_current_num_players: "bank_current s = Ok s' \<Longrightarrow> num_players s' = num_players s"
proof (cases "current_player s < length (player_totals s)")
  case True
  assume "bank_current s = Ok s'"
  with bank_current_Ok[OF True] show ?thesis
    by (simp add: num_players_check_winner num_players_reset_line)
next
  case False
  assume "bank_current s = Ok s'"
  with add_to_total_Raise[OF False] show ?thesis by (simp add: bank_current_def)
qed

lemma apply_action_stay:
  assumes legal: "''stay'' \<in> set (legal_actions s)"
    and bank: "bank_current (s\<lparr>round_over := False\<rparr>) = Ok s1"
    and np: "num_players s \<noteq> 0"
  shows "apply_action s ''stay'' =
           Ok (\<lparr>result = ''stayed'', ocard = None, banked = Some (BankedFlag True),
                round_end = None, draws = None\<rparr>,
               s1\<lparr>current_player := (current_player s1 + 1) mod num_players s1,
                  round_over := False\<rparr>)"
proof -
  have "num_players s1 \<noteq> 0" using bank_current_num_players[OF bank] np by simp
  from advance_player_Ok[OF this] legal bank show ?thesis
    by (simp add: apply_action_def)
qed

lemma not_round_over_legal: "a \<in> set (legal_actions s) \<Longrightarrow> s\<lparr>round_over := False\<rparr> = s"
  by (simp add: legal_actions_mem)

lemma apply_action_stay_totals:
  assumes legal: "''stay'' \<in> set (legal_actions s)"
    and cp: "current_player s < length (player_totals s)"
    and np: "num_players s \<noteq> 0"
  shows "\<exists>s'. apply_action s ''stay'' =
                 Ok (\<lparr>result = ''stayed'', ocard = None, banked = Some (BankedFlag True),
                      round_end = None, draws = None\<rparr>, s') \<and>
              player_totals s' = (player_totals s)[current_player s :=
                 player_totals s ! current_player s
                   + (if current_numbers s = [] then 0 else sum_current_score s)]"
proof -
  have s0: "s\<lparr>round_over := False\<rparr> = s" using legal by (rule not_round_over_legal)
  from bank_current_totals[OF cp] obtain s1 where
    b: "bank_current s = Ok s1"
    and t: "player_totals s1 = (player_totals s)[current_player s :=
                 player_totals s ! current_player s
                   + (if current_numbers s = [] then 0 else sum_current_score s)]" by blast
  from b s0 have b0: "bank_current (s\<lparr>round_over := False\<rparr>) = Ok s1" by simp
  show ?thesis using apply_action_stay[OF legal b0 np] t by simp
qed

lemma draw_card_freeze:
  "bank_current s = Ok s1 \<Longrightarrow>
   draw_card s (Action ''Freeze'') =
     Ok ((plain_outcome ''freeze'' (Action ''Freeze''))\<lparr>round_end := Some True\<rparr>,
         s1\<lparr>round_over := True\<rparr>)"
  by (subst draw_card_unfold) (simp add: process_card_def)

lemma draw_card_freeze_totals:
  assumes cp: "current_player s < length (player_totals s)"
  shows "\<exists>s'. draw_card s (Action ''Freeze'') =
                 Ok ((plain_outcome ''freeze'' (Action ''Freeze''))\<lparr>round_end := Some True\<rparr>, s') \<and>
              player_totals s' = (player_totals s)[current_player s :=
                 player_totals s ! current_player s
                   + (if current_numbers s = [] then 0 else sum_current_score s)]"
proof -
  from bank_current_totals[OF cp] obtain s1 where
    b: "bank_current s = Ok s1"
    and t: "player_totals s1 = (player_totals s)[current_player s :=
                 player_totals s ! current_player s
                   + (if current_numbers s = [] then 0 else sum_current_score s)]" by blast
  show ?thesis using draw_card_freeze[OF b] t by simp
qed

lemma draw_card_flip7:
  assumes new: "v \<notin> set (current_numbers s)"
    and seven: "7 \<le> length (remdups (current_numbers s @ [v]))"
    and cp: "current_player s < length (player_totals s)"
  shows "draw_card s (Number v) =
           Ok ((plain_outcome ''flip7'' (Number v))
                 \<lparr>banked := Some (BankedScore
                      (sum_current_score (s\<lparr>current_numbers := current_numbers s @ [v]\<rparr>))),
                   round_end := Some True\<rparr>,
               check_winner (reset_line (s\<lparr>current_numbers := current_numbers s @ [v],
                  player_totals := (player_totals s)[current_player s :=
                    player_totals s ! current_player s
                      + sum_current_score (s\<lparr>current_numbers := current_numbers s @ [v]\<rparr>)]\<rparr>)))"
proof -
  let ?s1 = "s\<lparr>current_numbers := current_numbers s @ [v]\<rparr>"
  have cp1: "current_player ?s1 < length (player_totals ?s1)" using cp by simp
  have "process_card draw_card s (Number v) =
          (case add_to_total ?s1 (sum_current_score ?s1) of
             Ok s2 \<Rightarrow> Ok ((plain_outcome ''flip7'' (Number v))
                 \<lparr>banked := Some (BankedScore (sum_current_score ?s1)), round_end := Some True\<rparr>,
                 check_winner (reset_line s2))
           | Raise e \<Rightarrow> Raise e | OutOfFuel \<Rightarrow> OutOfFuel)"
    using new seven by (simp add: process_card_def Let_def)
  then show ?thesis
    by (subst draw_card_unfold) (simp add: add_to_total_Ok[OF cp1])
qed

lemma sum_current_score_formula:
  "sum_current_score s =
     (if x2 s then sum_list (current_numbers s) * 2 else sum_list (current_numbers s))
     + flat_modifiers s
     + (if 7 \<le> card (set (current_numbers s)) then 15 else 0)"
  by (simp add: sum_current_score_def Let_def length_remdups_card_conv)

lemma draw_card_flip_three:
  "draw_card s (Action ''FlipThree'') =
     flip_three_loop draw_card 3 s (Action ''FlipThree'') []"
  by (subst draw_card_unfold) (simp add: process_card_def)

lemma draw_card_bust:
  "v \<in> set (current_numbers s) \<Longrightarrow> second_chance_count s = 0 \<Longrightarrow>
   draw_card s (Number v) =
     Ok ((plain_outcome ''bust'' (Number v))\<lparr>round_end := Some True\<rparr>, reset_line s)"
  by (subst draw_card_unfold) (simp add: process_card_def)

lemma apply_action_hit_end:
  assumes legal: "''hit'' \<in> set (legal_actions s)"
    and dk: "deck s = c # rest"
    and dr: "draw_card (s\<lparr>deck := rest\<rparr>) c = Ok (out, s1)"
    and en: "ends_round out"
    and np: "num_players s1 \<noteq> 0"
  shows "apply_action s ''hit'' =
           Ok (out, s1\<lparr>current_player := (current_player s1 + 1) mod num_players s1,
                       round_over := False\<rparr>)"
proof -
  have s0: "s\<lparr>round_over := False\<rparr> = s" using legal by (rule not_round_over_legal)
  have neq: "''hit'' \<noteq> ''stay''" by simp
  show ?thesis
    unfolding apply_action_def Let_def s0
    using legal dk dr en advance_player_Ok[OF np] neq by simp
qed

lemma apply_action_hit_go:
  assumes legal: "''hit'' \<in> set (legal_actions s)"
    and dk: "deck s = c # rest"
    and dr: "draw_card (s\<lparr>deck := rest\<rparr>) c = Ok (out, s1)"
    and en: "\<not> ends_round out"
  shows "apply_action s ''hit'' = Ok (out, s1)"
proof -
  have s0: "s\<lparr>round_over := False\<rparr> = s" using legal by (rule not_round_over_legal)
  have neq: "''hit'' \<noteq> ''stay''" by simp
  show ?thesis
    unfolding apply_action_def Let_def s0
    using legal dk dr en neq by simp
qed

section \<open>Claim C1: the banked score\<close>

text \<open>
  Claim C1, as amended. At every bank event the amount added to the active player's total
  is the score of the line: the sum of the collected numbers, doubled when the multiplier
  flag is set, plus the flat modifier, plus 15 when at least 7 distinct numbers are
  collected. A stay and a freeze bank that score when at least one number is collected,
  and bank 0 when the line holds no number, whatever its modifier and multiplier; a flip7
  banks the score of the line with the seventh number in it. With the numbers 3 and 4 and
  modifier 5 the score is 12, and 19 with the multiplier.
\<close>

theorem C1_bank_amount:
  assumes cp: "current_player s < length (player_totals s)"
  shows
    "(''stay'' \<in> set (legal_actions s) \<and> num_players s \<noteq> 0 \<longrightarrow>
        (\<exists>out s'. apply_action s ''stay'' = Ok (out, s') \<and>
           player_totals s' = (player_totals s)[current_player s :=
              player_totals s ! current_player s
                + (if current_numbers s = [] then 0 else sum_current_score s)])) \<and>
     (\<exists>out s'. draw_card s (Action ''Freeze'') = Ok (out, s') \<and> result out = ''freeze'' \<and>
           player_totals s' = (player_totals s)[current_player s :=
              player_totals s ! current_player s
                + (if current_numbers s = [] then 0 else sum_current_score s)]) \<and>
     (v \<notin> set (current_numbers s) \<and> 7 \<le> card (set (current_numbers s @ [v])) \<longrightarrow>
        (\<exists>out s'. draw_card s (Number v) = Ok (out, s') \<and> result out = ''flip7'' \<and>
           player_totals s' = (player_totals s)[current_player s :=
              player_totals s ! current_player s
                + sum_current_score (s\<lparr>current_numbers := current_numbers s @ [v]\<rparr>)])) \<and>
     sum_current_score s =
       (if x2 s then sum_list (current_numbers s) * 2 else sum_list (current_numbers s))
       + flat_modifiers s
       + (if 7 \<le> card (set (current_numbers s)) then 15 else 0) \<and>
     (current_numbers s = [3, 4] \<and> flat_modifiers s = 5 \<and> \<not> x2 s \<longrightarrow> sum_current_score s = 12) \<and>
     (current_numbers s = [3, 4] \<and> flat_modifiers s = 5 \<and> x2 s \<longrightarrow> sum_current_score s = 19)"
proof (intro conjI impI)
  assume "''stay'' \<in> set (legal_actions s) \<and> num_players s \<noteq> 0"
  then show "\<exists>out s'. apply_action s ''stay'' = Ok (out, s') \<and>
           player_totals s' = (player_totals s)[current_player s :=
              player_totals s ! current_player s
                + (if current_numbers s = [] then 0 else sum_current_score s)]"
    using apply_action_stay_totals[OF _ cp] by blast
next
  from draw_card_freeze_totals[OF cp] obtain s' where
    "draw_card s (Action ''Freeze'') =
       Ok ((plain_outcome ''freeze'' (Action ''Freeze''))\<lparr>round_end := Some True\<rparr>, s')"
    and "player_totals s' = (player_totals s)[current_player s :=
              player_totals s ! current_player s
                + (if current_numbers s = [] then 0 else sum_current_score s)]" by blast
  moreover have "result ((plain_outcome ''freeze'' (Action ''Freeze''))\<lparr>round_end := Some True\<rparr>)
      = ''freeze''" by (simp add: plain_outcome_def)
  ultimately show "\<exists>out s'. draw_card s (Action ''Freeze'') = Ok (out, s') \<and>
           result out = ''freeze'' \<and>
           player_totals s' = (player_totals s)[current_player s :=
              player_totals s ! current_player s
                + (if current_numbers s = [] then 0 else sum_current_score s)]" by blast
next
  assume a: "v \<notin> set (current_numbers s) \<and> 7 \<le> card (set (current_numbers s @ [v]))"
  then have new: "v \<notin> set (current_numbers s)" by blast
  have "length (remdups (current_numbers s @ [v])) = card (set (current_numbers s @ [v]))"
    by (rule length_remdups_card_conv)
  with a have seven: "7 \<le> length (remdups (current_numbers s @ [v]))" by presburger
  have r: "result ((plain_outcome ''flip7'' (Number v))
                 \<lparr>banked := Some (BankedScore
                      (sum_current_score (s\<lparr>current_numbers := current_numbers s @ [v]\<rparr>))),
                   round_end := Some True\<rparr>) = ''flip7''" by (simp add: plain_outcome_def)
  have t: "player_totals (check_winner (reset_line (s\<lparr>current_numbers := current_numbers s @ [v],
                  player_totals := (player_totals s)[current_player s :=
                    player_totals s ! current_player s
                      + sum_current_score (s\<lparr>current_numbers := current_numbers s @ [v]\<rparr>)]\<rparr>)))
        = (player_totals s)[current_player s :=
              player_totals s ! current_player s
                + sum_current_score (s\<lparr>current_numbers := current_numbers s @ [v]\<rparr>)]"
    by (simp add: player_totals_check_winner player_totals_reset_line)
  show "\<exists>out s'. draw_card s (Number v) = Ok (out, s') \<and> result out = ''flip7'' \<and>
           player_totals s' = (player_totals s)[current_player s :=
              player_totals s ! current_player s
                + sum_current_score (s\<lparr>current_numbers := current_numbers s @ [v]\<rparr>)]"
    using draw_card_flip7[OF new seven cp] r t by blast
next
  show "sum_current_score s =
       (if x2 s then sum_list (current_numbers s) * 2 else sum_list (current_numbers s))
       + flat_modifiers s
       + (if 7 \<le> card (set (current_numbers s)) then 15 else 0)"
    by (rule sum_current_score_formula)
next
  assume "current_numbers s = [3, 4] \<and> flat_modifiers s = 5 \<and> \<not> x2 s"
  then show "sum_current_score s = 12" by (simp add: sum_current_score_def)
next
  assume "current_numbers s = [3, 4] \<and> flat_modifiers s = 5 \<and> x2 s"
  then show "sum_current_score s = 19" by (simp add: sum_current_score_def)
qed

text \<open>The fields of the example states.\<close>

lemma mid_round_fields:
  "num_players (mid_round ns m mult sc cs) = 2"
  "player_totals (mid_round ns m mult sc cs) = [0, 0]"
  "current_player (mid_round ns m mult sc cs) = 0"
  "deck (mid_round ns m mult sc cs) = cs"
  "current_numbers (mid_round ns m mult sc cs) = ns"
  "flat_modifiers (mid_round ns m mult sc cs) = m"
  "x2 (mid_round ns m mult sc cs) = mult"
  "second_chance_count (mid_round ns m mult sc cs) = sc"
  "round_over (mid_round ns m mult sc cs) = False"
  "winner (mid_round ns m mult sc cs) = None"
  by (simp_all add: mid_round_def)

text \<open>
  Claim C1 at three states: a stay with 3 and 4 and modifier 5 banks 12, the same line
  with the multiplier scores 19, and a seventh number on 1 to 6 with modifier 5 and the
  multiplier banks 2 * 28 + 5 + 15 = 76.
\<close>

theorem C1_witness:
  "current_player (mid_round [3, 4] 5 False 0 []) < length (player_totals (mid_round [3, 4] 5 False 0 [])) \<and>
   ''stay'' \<in> set (legal_actions (mid_round [3, 4] 5 False 0 [])) \<and>
   num_players (mid_round [3, 4] 5 False 0 []) \<noteq> 0 \<and>
   (\<exists>out s'. apply_action (mid_round [3, 4] 5 False 0 []) ''stay'' = Ok (out, s') \<and>
      player_totals s' = [12, 0]) \<and>
   sum_current_score (mid_round [3, 4] 5 False 0 []) = 12 \<and>
   sum_current_score (mid_round [3, 4] 5 True 0 []) = 19 \<and>
   (\<exists>out s'. draw_card (mid_round [1, 2, 3, 4, 5, 6] 5 True 0 []) (Number 7) = Ok (out, s') \<and>
      result out = ''flip7'' \<and> player_totals s' = [76, 0])"
proof -
  let ?s = "mid_round [3, 4] 5 False 0 []"
  let ?t = "mid_round [3, 4] 5 True 0 []"
  let ?u = "mid_round [1, 2, 3, 4, 5, 6] 5 True 0 []"
  have cp: "current_player ?s < length (player_totals ?s)" by (simp add: mid_round_fields)
  have cpt: "current_player ?t < length (player_totals ?t)" by (simp add: mid_round_fields)
  have cpu: "current_player ?u < length (player_totals ?u)" by (simp add: mid_round_fields)
  have legal: "''stay'' \<in> set (legal_actions ?s)"
    by (simp add: legal_actions_def mid_round_fields)
  have np: "num_players ?s \<noteq> 0" by (simp add: mid_round_fields)
  have sc: "sum_current_score ?s = 12"
    using C1_bank_amount[OF cp, of 0] by (simp add: mid_round_fields)
  have sct: "sum_current_score ?t = 19"
    using C1_bank_amount[OF cpt, of 0] by (simp add: mid_round_fields)
  have stay: "\<exists>out s'. apply_action ?s ''stay'' = Ok (out, s') \<and> player_totals s' = [12, 0]"
    using C1_bank_amount[OF cp, of 0] legal np sc by (simp add: mid_round_fields)
  have scu: "sum_current_score (?u\<lparr>current_numbers := current_numbers ?u @ [7]\<rparr>) = 76"
    by (simp add: sum_current_score_def mid_round_fields)
  have "7 \<notin> set (current_numbers ?u) \<and> 7 \<le> card (set (current_numbers ?u @ [7]))"
    by (simp add: mid_round_fields)
  then have flip: "\<exists>out s'. draw_card ?u (Number 7) = Ok (out, s') \<and>
      result out = ''flip7'' \<and> player_totals s' = [76, 0]"
    using C1_bank_amount[OF cpu, of 7] scu by (simp add: mid_round_fields)
  show ?thesis using cp legal np stay sc sct flip by blast
qed

text \<open>
  Claim C1 as it is written says that an empty line with modifier 5 banks 5. The score
  of that line is 5, but \<open>_bank_current\<close> computes the score only \<open>if self.current_numbers\<close>:
  the stay leaves both totals at 0.
\<close>

theorem C1_counterexample:
  "sum_current_score (mid_round [] 5 False 0 []) = 5 \<and>
   apply_action (mid_round [] 5 False 0 []) ''stay'' =
     Ok (\<lparr>result = ''stayed'', ocard = None, banked = Some (BankedFlag True),
          round_end = None, draws = None\<rparr>,
         (mid_round [] 0 False 0 [])\<lparr>round_over := False, current_player := 1\<rparr>) \<and>
   player_totals ((mid_round [] 0 False 0 [])\<lparr>round_over := False, current_player := 1\<rparr>) = [0, 0]"
  by (simp add: mid_round_def sum_current_score_def apply_action_def legal_actions_def
      bank_current_def add_to_total_def reset_line_def check_winner_def advance_player_def)

section \<open>Claim C6: the bust\<close>

text \<open>
  Claim C6. When hit is legal, the card drawn is a number already collected and no
  second-chance token is held, the outcome is a bust: the result is "bust" with the
  round-end flag, every player's total is unchanged, the collected numbers, the flat
  modifier, the multiplier flag and the tokens are reset, the winner is as before, and the
  turn passes to the next player. The draw itself (also a forced one) resets the line and
  leaves the totals alone.
\<close>

theorem C6_duplicate_busts:
  assumes legal: "''hit'' \<in> set (legal_actions s)"
    and dk: "deck s = Number v # rest"
    and dup: "v \<in> set (current_numbers s)"
    and sc: "second_chance_count s = 0"
    and np: "num_players s \<noteq> 0"
  shows "\<exists>s'. apply_action s ''hit'' =
                 Ok ((plain_outcome ''bust'' (Number v))\<lparr>round_end := Some True\<rparr>, s') \<and>
              result ((plain_outcome ''bust'' (Number v))\<lparr>round_end := Some True\<rparr>) = ''bust'' \<and>
              player_totals s' = player_totals s \<and>
              current_numbers s' = [] \<and> flat_modifiers s' = 0 \<and> \<not> x2 s' \<and>
              second_chance_count s' = 0 \<and>
              deck s' = rest \<and> winner s' = winner s \<and>
              current_player s' = (current_player s + 1) mod num_players s \<and>
              draw_card (s\<lparr>deck := rest\<rparr>) (Number v) =
                Ok ((plain_outcome ''bust'' (Number v))\<lparr>round_end := Some True\<rparr>,
                    reset_line (s\<lparr>deck := rest\<rparr>))"
proof -
  let ?t = "s\<lparr>deck := rest\<rparr>"
  let ?out = "(plain_outcome ''bust'' (Number v))\<lparr>round_end := Some True\<rparr>"
  have dr: "draw_card ?t (Number v) = Ok (?out, reset_line ?t)"
    by (rule draw_card_bust) (use dup sc in simp_all)
  have en: "ends_round ?out" by (simp add: ends_round_def)
  have np1: "num_players (reset_line ?t) \<noteq> 0" using np by (simp add: reset_line_def)
  have ap: "apply_action s ''hit'' =
      Ok (?out, (reset_line ?t)\<lparr>current_player :=
             (current_player (reset_line ?t) + 1) mod num_players (reset_line ?t),
           round_over := False\<rparr>)"
    by (rule apply_action_hit_end[OF legal dk dr en np1])
  show ?thesis
    unfolding ap using dr by (simp add: reset_line_def plain_outcome_def)
qed

text \<open>
  Claim C6 at a state with 3 and 4 collected, modifier 5 and the multiplier: drawing a
  second 4 busts.
\<close>

theorem C6_witness:
  "''hit'' \<in> set (legal_actions (mid_round [3, 4] 5 True 0 [Number 4, Number 9])) \<and>
   deck (mid_round [3, 4] 5 True 0 [Number 4, Number 9]) = Number 4 # [Number 9] \<and>
   4 \<in> set (current_numbers (mid_round [3, 4] 5 True 0 [Number 4, Number 9])) \<and>
   second_chance_count (mid_round [3, 4] 5 True 0 [Number 4, Number 9]) = 0 \<and>
   num_players (mid_round [3, 4] 5 True 0 [Number 4, Number 9]) \<noteq> 0 \<and>
   (\<exists>s'. apply_action (mid_round [3, 4] 5 True 0 [Number 4, Number 9]) ''hit'' =
            Ok ((plain_outcome ''bust'' (Number 4))\<lparr>round_end := Some True\<rparr>, s') \<and>
          player_totals s' = [0, 0] \<and> current_numbers s' = [] \<and> flat_modifiers s' = 0 \<and>
          \<not> x2 s' \<and> second_chance_count s' = 0 \<and> deck s' = [Number 9] \<and>
          current_player s' = 1)"
proof -
  let ?s = "mid_round [3, 4] 5 True 0 [Number 4, Number 9]"
  have legal: "''hit'' \<in> set (legal_actions ?s)"
    by (simp add: legal_actions_def mid_round_fields)
  have dk: "deck ?s = Number 4 # [Number 9]" by (simp add: mid_round_fields)
  have dup: "4 \<in> set (current_numbers ?s)" by (simp add: mid_round_fields)
  have sc: "second_chance_count ?s = 0" by (simp add: mid_round_fields)
  have np: "num_players ?s \<noteq> 0" by (simp add: mid_round_fields)
  from C6_duplicate_busts[OF legal dk dup sc np]
  have "\<exists>s'. apply_action ?s ''hit'' =
            Ok ((plain_outcome ''bust'' (Number 4))\<lparr>round_end := Some True\<rparr>, s') \<and>
          player_totals s' = [0, 0] \<and> current_numbers s' = [] \<and> flat_modifiers s' = 0 \<and>
          \<not> x2 s' \<and> second_chance_count s' = 0 \<and> deck s' = [Number 9] \<and>
          current_player s' = 1"
    by (simp add: mid_round_fields) blast
  with legal dk dup sc np show ?thesis by blast
qed

end
